theory Spec2Isabelle
  imports Main
begin

section \<open>Values, declared types and errors\<close>

text \<open>
  The protocol module works on dynamically typed Python values. A value is an integer, a
  string, a boolean, \<open>None\<close>, a list, a dict with string keys (the shape of a decoded JSON
  document) or an instance of one of the declared dataclasses. A dict is an association
  list in insertion order; an instance carries its class and its field values in
  declaration order, which is what the generated \<open>__eq__\<close> of a dataclass compares.
\<close>

datatype cls =
    BroadcastRequest
  | User
  | Chat
  | Message
  | InsertUserRequest
  | InsertUserResponse
  | GetChatsRequest
  | GetChatsResponse
  | InsertChatRequest
  | InsertChatResponse
  | GetParticipantsRequest
  | GetParticipantsResponse
  | GetMessagesRequest
  | GetMessagesResponse
  | InsertMessageRequest
  | InsertMessageResponse

datatype pyval =
    PInt int
  | PStr string
  | PBool bool
  | PNone
  | PList "pyval list"
  | PDict "(string \<times> pyval) list"
  | PObj cls "(string \<times> pyval) list"

text \<open>
  The annotation of a field: \<open>int\<close>, \<open>str\<close>, \<open>List[T]\<close> or one of the classes.
\<close>

datatype ftype = TInt | TStr | TList ftype | TCls cls

text \<open>
  The exceptions the module can raise: \<open>KeyError\<close> from \<open>json[field.name]\<close> with the
  missing key, \<open>AttributeError\<close> from \<open>type_.from_json\<close> or \<open>type_.__args__\<close> on a type
  that has no such attribute, \<open>TypeError\<close> from subscripting a value that is not a dict
  with a string, from a constructor call with wrong keywords and from
  \<open>dataclasses.asdict\<close> on a value that is no dataclass instance.
\<close>

datatype error = KeyError string | AttributeError | TypeError

section \<open>The declared dataclasses\<close>

text \<open>\<open>dataclasses.fields(cls)\<close>: the names and annotations, in declaration order.\<close>

fun fields :: "cls \<Rightarrow> (string \<times> ftype) list" where
  "fields BroadcastRequest =
     [(''chat_id'', TInt), (''user_id'', TInt), (''user_name'', TStr), (''message_text'', TStr)]"
| "fields User = [(''user_id'', TInt), (''user_name'', TStr)]"
| "fields Chat = [(''chat_id'', TInt), (''chat_name'', TStr)]"
| "fields Message =
     [(''message_id'', TInt), (''chat_id'', TInt), (''user_id'', TInt),
      (''message_text'', TStr), (''message_ts'', TInt)]"
| "fields InsertUserRequest = [(''user_name'', TStr)]"
| "fields InsertUserResponse = [(''user_id'', TInt)]"
| "fields GetChatsRequest = [(''user_id'', TInt)]"
| "fields GetChatsResponse = [(''chats'', TList (TCls Chat))]"
| "fields InsertChatRequest = [(''chat_name'', TStr), (''user_ids'', TList TInt)]"
| "fields InsertChatResponse = [(''chat_id'', TInt)]"
| "fields GetParticipantsRequest = [(''chat_id'', TInt)]"
| "fields GetParticipantsResponse = [(''users'', TList (TCls User))]"
| "fields GetMessagesRequest = [(''chat_id'', TInt)]"
| "fields GetMessagesResponse = [(''messages'', TList (TCls Message))]"
| "fields InsertMessageRequest =
     [(''chat_id'', TInt), (''user_id'', TInt), (''message_text'', TStr),
      (''message_timestamp'', TInt)]"
| "fields InsertMessageResponse = [(''message_id'', TInt)]"

section \<open>Python primitives used by the module\<close>

text \<open>\<open>isinstance(value, dict)\<close> and \<open>isinstance(value, list)\<close>.\<close>

fun is_dict :: "pyval \<Rightarrow> bool" where
  "is_dict (PDict _) = True"
| "is_dict _ = False"

fun is_list :: "pyval \<Rightarrow> bool" where
  "is_list (PList _) = True"
| "is_list _ = False"

text \<open>
  \<open>json[name]\<close> with a string \<open>name\<close>: the entry of a dict, \<open>KeyError\<close> when the key is
  absent, \<open>TypeError\<close> when \<open>json\<close> is not a dict (a list or a string takes integer
  indices only, the other values are not subscriptable).
\<close>

fun subscript :: "pyval \<Rightarrow> string \<Rightarrow> error + pyval" where
  "subscript (PDict kvs) name =
     (case map_of kvs name of None \<Rightarrow> Inl (KeyError name) | Some v \<Rightarrow> Inr v)"
| "subscript _ name = Inl TypeError"

text \<open>
  \<open>kwargs[name] = v\<close>: an existing key keeps its position and takes the new value, a new
  key is appended.
\<close>

fun dict_set :: "(string \<times> pyval) list \<Rightarrow> string \<Rightarrow> pyval \<Rightarrow> (string \<times> pyval) list" where
  "dict_set [] name v = [(name, v)]"
| "dict_set ((k, w) # kvs) name v =
     (if k = name then (k, v) # kvs else (k, w) # dict_set kvs name v)"

text \<open>
  \<open>type_.__args__[0]\<close>: the element type of \<open>List[T]\<close>; \<open>int\<close>, \<open>str\<close> and the dataclasses
  have no \<open>__args__\<close>.
\<close>

fun type_args0 :: "ftype \<Rightarrow> error + ftype" where
  "type_args0 (TList t) = Inr t"
| "type_args0 _ = Inl AttributeError"

text \<open>
  \<open>cls(**kwargs)\<close>: the generated \<open>__init__\<close> of a dataclass takes one argument per field
  and checks nothing but their names: a missing or an unexpected keyword is a
  \<open>TypeError\<close>, and the values are stored as they come.
\<close>

definition construct :: "cls \<Rightarrow> (string \<times> pyval) list \<Rightarrow> error + pyval" where
  "construct c kwargs =
     (if list_all (\<lambda>n. map_of kwargs n \<noteq> None) (map fst (fields c))
         \<and> list_all (\<lambda>k. k \<in> set (map fst (fields c))) (map fst kwargs)
      then Inr (PObj c (map (\<lambda>n. (n, the (map_of kwargs n))) (map fst (fields c))))
      else Inl TypeError)"

section \<open>Decoding: \<open>_parse_field\<close> and \<open>from_json\<close>\<close>

lemma map_of_size [termination_simp]:
  "map_of kvs n = Some v \<Longrightarrow> size v < Suc (size_list (size_prod (\<lambda>_. 0) size) kvs)"
  by (induction kvs) (auto split: if_splits)

text \<open>
  \<open>from_json c json\<close> is the class method \<open>c.from_json(json)\<close>; \<open>from_json_loop\<close> is its
  \<open>for\<close> loop over the remaining fields with the \<open>kwargs\<close> built so far, and
  \<open>from_json_field\<close> the \<open>if\<close>/\<open>else\<close> of the loop body, which computes the value stored
  under the field's name. \<open>parse_list\<close> is the list comprehension, evaluated left to
  right. \<open>type_.from_json\<close> exists only when \<open>type_\<close> is one of the classes: \<open>int\<close>, \<open>str\<close>
  and \<open>List[T]\<close> have no such attribute.
\<close>

function (sequential)
      parse_field :: "ftype \<Rightarrow> pyval \<Rightarrow> error + pyval"
  and parse_list :: "ftype \<Rightarrow> pyval list \<Rightarrow> error + pyval list"
  and from_json_field :: "ftype \<Rightarrow> pyval \<Rightarrow> error + pyval"
  and from_json_loop :: "cls \<Rightarrow> (string \<times> ftype) list \<Rightarrow> pyval \<Rightarrow> (string \<times> pyval) list \<Rightarrow> error + pyval"
  and from_json :: "cls \<Rightarrow> pyval \<Rightarrow> error + pyval"
where
  "parse_field ty (PDict kvs) =
     (case ty of TCls c \<Rightarrow> from_json c (PDict kvs) | _ \<Rightarrow> Inl AttributeError)"
| "parse_field ty value = Inr value"
| "parse_list ty [] = Inr []"
| "parse_list ty (v # vs) =
     (case parse_field ty v of
        Inl e \<Rightarrow> Inl e
      | Inr x \<Rightarrow> (case parse_list ty vs of Inl e \<Rightarrow> Inl e | Inr xs \<Rightarrow> Inr (x # xs)))"
| "from_json_field ty (PList vs) =
     (case type_args0 ty of
        Inl e \<Rightarrow> Inl e
      | Inr elem \<Rightarrow> (case parse_list elem vs of Inl e \<Rightarrow> Inl e | Inr xs \<Rightarrow> Inr (PList xs)))"
| "from_json_field ty value = parse_field ty value"
| "from_json_loop c [] json kwargs = construct c kwargs"
| "from_json_loop c ((name, ty) # fs) json kwargs =
     (case subscript json name of
        Inl e \<Rightarrow> Inl e
      | Inr value \<Rightarrow>
          (case from_json_field ty value of
             Inl e \<Rightarrow> Inl e
           | Inr x \<Rightarrow> from_json_loop c fs json (dict_set kwargs name x)))"
| "from_json c json = from_json_loop c (fields c) json []"
  by pat_completeness auto

lemma subscript_size:
  "subscript json name = Inr value \<Longrightarrow> size value < size json"
  by (cases json) (auto split: option.splits dest: map_of_size)

termination parse_field
proof (relation "measures
    [case_sum (case_sum (\<lambda>(ty, v). size v) (\<lambda>(ty, vs). size_list size vs))
       (case_sum (\<lambda>(ty, v). size v)
          (case_sum (\<lambda>(c, fs, json, kwargs). size json) (\<lambda>(c, json). size json))),
     case_sum (case_sum (\<lambda>_. 2) (\<lambda>_. 0))
       (case_sum (\<lambda>_. 3) (case_sum (\<lambda>_. 0) (\<lambda>_. 1))),
     case_sum (case_sum (\<lambda>_. 0) (\<lambda>_. 0))
       (case_sum (\<lambda>_. 0) (case_sum (\<lambda>(c, fs, json, kwargs). length fs) (\<lambda>_. 0)))]",
    goal_cases)
  case 1
  show ?case by simp
qed (auto dest: subscript_size)

section \<open>Encoding: \<open>to_json\<close>\<close>

text \<open>
  \<open>dataclasses.asdict\<close> of the standard library, as its documentation describes it: a
  dataclass instance becomes a dict from its field names to the converted field values,
  in declaration order; lists and dicts are converted element by element; every other
  value is copied. It raises \<open>TypeError\<close> when its argument is not a dataclass instance.
\<close>

fun asdict_inner :: "pyval \<Rightarrow> pyval" where
  "asdict_inner (PObj c kvs) = PDict (map (\<lambda>(n, v). (n, asdict_inner v)) kvs)"
| "asdict_inner (PList vs) = PList (map asdict_inner vs)"
| "asdict_inner (PDict kvs) = PDict (map (\<lambda>(k, v). (k, asdict_inner v)) kvs)"
| "asdict_inner v = v"

fun asdict :: "pyval \<Rightarrow> error + pyval" where
  "asdict (PObj c kvs) = Inr (asdict_inner (PObj c kvs))"
| "asdict _ = Inl TypeError"

definition to_json :: "pyval \<Rightarrow> error + pyval" where
  "to_json self = asdict self"

section \<open>Well-typed instances and wire values\<close>

text \<open>
  \<open>has_type v ty\<close>: the value \<open>v\<close> respects the annotation \<open>ty\<close>. An \<open>int\<close> is an integer
  (a Python \<open>bool\<close> is an \<open>int\<close> too), a \<open>str\<close> a string, a \<open>List[T]\<close> a list of values of
  type \<open>T\<close>, and a class \<open>c\<close> an instance of \<open>c\<close> holding, for each declared field in
  order, a value of the field's type.
\<close>

fun has_type :: "pyval \<Rightarrow> ftype \<Rightarrow> bool" where
  "has_type (PInt i) ty = (ty = TInt)"
| "has_type (PBool b) ty = (ty = TInt)"
| "has_type (PStr s) ty = (ty = TStr)"
| "has_type PNone ty = False"
| "has_type (PList vs) ty =
     (case ty of TList elem \<Rightarrow> list_all (\<lambda>v. has_type v elem) vs | _ \<Rightarrow> False)"
| "has_type (PDict kvs) ty = False"
| "has_type (PObj c kvs) ty =
     (ty = TCls c \<and> list_all2 (\<lambda>(n, v) (m, t). n = m \<and> has_type v t) kvs (fields c))"

text \<open>
  A wire value is a JSON-shaped tree: dicts, lists and primitives, with no dataclass
  instance anywhere inside.
\<close>

fun is_wire :: "pyval \<Rightarrow> bool" where
  "is_wire (PObj c kvs) = False"
| "is_wire (PList vs) = list_all is_wire vs"
| "is_wire (PDict kvs) = list_all (\<lambda>(k, v). is_wire v) kvs"
| "is_wire v = True"

text \<open>
  The values one run of the loop of \<open>from_json\<close> stores, field by field and without the
  accumulator: the first failing field ends the run with its error. The loop is shown
  below to construct the instance from exactly these values.
\<close>

fun field_values :: "(string \<times> ftype) list \<Rightarrow> pyval \<Rightarrow> error + (string \<times> pyval) list" where
  "field_values [] json = Inr []"
| "field_values ((name, ty) # fs) json =
     (case subscript json name of
        Inl e \<Rightarrow> Inl e
      | Inr value \<Rightarrow>
          (case from_json_field ty value of
             Inl e \<Rightarrow> Inl e
           | Inr x \<Rightarrow> (case field_values fs json of Inl e \<Rightarrow> Inl e | Inr xs \<Rightarrow> Inr ((name, x) # xs))))"

text \<open>
  An annotation is flat when it is not a list of lists: the list comprehension of
  \<open>from_json\<close> decodes the elements of a list with \<open>_parse_field\<close>, which leaves an inner
  list untouched. Every declared field is flat.
\<close>

fun flat :: "ftype \<Rightarrow> bool" where
  "flat (TList (TList elem)) = False"
| "flat ty = True"

section \<open>The loop of \<open>from_json\<close>, field by field\<close>

lemma fields_distinct: "distinct (map fst (fields c))"
  by (cases c) simp_all

lemma fields_nonempty: "fields c \<noteq> []"
  by (cases c) simp_all

lemma field_values_names: "field_values fs json = Inr xs \<Longrightarrow> map fst xs = map fst fs"
  by (induction fs arbitrary: xs) (auto split: sum.splits)

lemma dict_set_append: "name \<notin> fst ` set kwargs \<Longrightarrow> dict_set kwargs name v = kwargs @ [(name, v)]"
  by (induction kwargs name v rule: dict_set.induct) auto

lemma from_json_loop_eq:
  "distinct (map fst kwargs @ map fst fs) \<Longrightarrow>
   from_json_loop c fs json kwargs =
     (case field_values fs json of Inl e \<Rightarrow> Inl e | Inr xs \<Rightarrow> construct c (kwargs @ xs))"
proof (induction fs arbitrary: kwargs)
  case Nil
  then show ?case by simp
next
  case (Cons f fs)
  obtain name ty where f: "f = (name, ty)" by (cases f)
  have fresh: "name \<notin> fst ` set kwargs" using Cons.prems f by auto
  have d: "\<And>x. distinct (map fst (kwargs @ [(name, x)]) @ map fst fs)"
    using Cons.prems f by auto
  show ?case
    using Cons.IH [OF d] fresh
    by (auto simp: f dict_set_append split: sum.splits)
qed

lemma construct_exact:
  assumes a: "map fst xs = map fst (fields c)"
  shows "construct c xs = Inr (PObj c xs)"
proof -
  have d: "distinct (map fst xs)" using a fields_distinct by simp
  have "\<And>p. p \<in> set xs \<Longrightarrow> (fst p, the (map_of xs (fst p))) = p"
    using d by (metis map_of_is_SomeI option.sel prod.collapse)
  then have m: "map (\<lambda>n. (n, the (map_of xs n))) (map fst xs) = xs"
    by (simp add: comp_def map_idI)
  have p1: "list_all (\<lambda>n. map_of xs n \<noteq> None) (map fst xs)"
    unfolding list_all_iff by (simp add: map_of_eq_None_iff)
  have p2: "list_all (\<lambda>k. k \<in> set (map fst xs)) (map fst xs)"
    unfolding list_all_iff by simp
  show ?thesis
    unfolding construct_def a [symmetric] using m p1 p2 by simp
qed

lemma from_json_eq:
  "from_json c json =
     (case field_values (fields c) json of Inl e \<Rightarrow> Inl e | Inr xs \<Rightarrow> Inr (PObj c xs))"
  using from_json_loop_eq [of "[]" "fields c" c json] fields_distinct [of c]
  by (auto split: sum.splits dest!: field_values_names simp: construct_exact)

lemma field_values_all:
  "field_values fs json = Inr xs \<Longrightarrow>
   list_all2 (\<lambda>(n, x) (m, t). n = m \<and>
      (\<exists>w. subscript json n = Inr w \<and> from_json_field t w = Inr x)) xs fs"
  by (induction fs arbitrary: xs) (auto split: sum.splits)

lemma field_values_field:
  assumes "field_values fs json = Inr xs" and "(name, ty) \<in> set fs"
  shows "\<exists>w x. subscript json name = Inr w \<and> from_json_field ty w = Inr x"
  using assms by (induction fs arbitrary: xs) (auto split: sum.splits)

lemma from_json_field_ok:
  assumes "from_json c json = Inr r" and "(name, ty) \<in> set (fields c)"
  shows "\<exists>w x. subscript json name = Inr w \<and> from_json_field ty w = Inr x"
proof -
  obtain xs where "field_values (fields c) json = Inr xs"
    using assms(1) unfolding from_json_eq by (auto split: sum.splits)
  then show ?thesis using assms(2) by (rule field_values_field)
qed

section \<open>A mapping in a primitive field\<close>

text \<open>
  Claim C10. When the wire mapping holds a mapping under the name of a field declared
  \<open>int\<close> or \<open>str\<close>, decoding fails: no instance is returned whose field holds the
  mapping. \<open>_parse_field\<close> calls \<open>from_json\<close> on the primitive type, which has no such
  attribute.
\<close>

theorem primitive_field_mapping_fails:
  assumes "(name, ty) \<in> set (fields c)"
    and "ty = TInt \<or> ty = TStr"
    and "map_of kvs name = Some (PDict d)"
  shows "\<exists>e. from_json c (PDict kvs) = Inl e"
proof (cases "from_json c (PDict kvs)")
  case (Inl e)
  then show ?thesis by blast
next
  case (Inr r)
  from from_json_field_ok [OF Inr assms(1)] assms(3)
  obtain x where "from_json_field ty (PDict d) = Inr x" by auto
  with assms(2) show ?thesis by auto
qed

theorem primitive_field_mapping_fails_witness:
  "(''user_id'', TInt) \<in> set (fields InsertUserResponse)
   \<and> map_of [(''user_id'', PDict [])] ''user_id'' = Some (PDict [])
   \<and> from_json InsertUserResponse (PDict [(''user_id'', PDict [])]) = Inl AttributeError"
  using primitive_field_mapping_fails
    [of "''user_id''" TInt InsertUserResponse "[(''user_id'', PDict [])]" "[]"]
  by simp

section \<open>Decoding an encoded instance\<close>

lemma fields_flat: "(name, ty) \<in> set (fields c) \<Longrightarrow> flat ty"
  by (cases c) auto

lemma field_values_intro:
  "list_all2 (\<lambda>(n, x) (m, t). n = m \<and>
      (\<exists>w. subscript json n = Inr w \<and> from_json_field t w = Inr x)) xs fs
   \<Longrightarrow> field_values fs json = Inr xs"
  by (induction xs fs rule: list_all2_induct) auto

lemma parse_list_roundtrip:
  "(\<And>v. v \<in> set vs \<Longrightarrow> parse_field elem (asdict_inner v) = Inr v)
   \<Longrightarrow> parse_list elem (map asdict_inner vs) = Inr vs"
  by (induction vs) auto

lemma list_all2_names:
  "list_all2 (\<lambda>(n, v) (m, t). n = m \<and> P n v t) xs ys \<Longrightarrow> map fst xs = map fst ys"
  by (induction xs ys rule: list_all2_induct) auto

lemma has_type_fields:
  assumes "has_type (PObj c kvs) ty"
  shows "ty = TCls c" and "map fst kvs = map fst (fields c)"
    and "list_all2 (\<lambda>(n, v) (m, t). n = m \<and> has_type v t) kvs (fields c)"
proof -
  show "ty = TCls c" and l: "list_all2 (\<lambda>(n, v) (m, t). n = m \<and> has_type v t) kvs (fields c)"
    using assms by auto
  from l show "map fst kvs = map fst (fields c)"
    by (rule list_all2_names)
qed

lemma roundtrip_value:
  "has_type v ty \<Longrightarrow>
     ((\<forall>elem. ty \<noteq> TList elem) \<longrightarrow> parse_field ty (asdict_inner v) = Inr v)
   \<and> (flat ty \<longrightarrow> from_json_field ty (asdict_inner v) = Inr v)"
proof (induction v arbitrary: ty)
  case (PList vs)
  then obtain elem where ty: "ty = TList elem" and all: "\<forall>v\<in>set vs. has_type v elem"
    by (auto simp: list_all_iff split: ftype.splits)
  have "parse_list elem (map asdict_inner vs) = Inr vs" if "flat ty"
  proof (rule parse_list_roundtrip)
    fix v assume v: "v \<in> set vs"
    have "\<forall>e. elem \<noteq> TList e" using that ty by (cases elem) auto
    with PList.IH [OF v] all v show "parse_field elem (asdict_inner v) = Inr v" by blast
  qed
  then show ?case by (simp add: ty)
next
  case (PObj c kvs)
  note ht = has_type_fields [OF PObj.prems]
  let ?D = "map (\<lambda>(n, v). (n, asdict_inner v)) kvs"
  have dk: "distinct (map fst kvs)" using ht(2) fields_distinct by simp
  have names: "map fst ?D = map fst kvs" by (simp add: comp_def case_prod_unfold)
  have look: "map_of ?D n = Some (asdict_inner v)" if "(n, v) \<in> set kvs" for n v
  proof -
    have "(n, asdict_inner v) \<in> set ?D" using that by force
    moreover have "distinct (map fst ?D)" by (simp only: names dk)
    ultimately show ?thesis by (rule map_of_is_SomeI [rotated])
  qed
  have "list_all2 (\<lambda>(n, x) (m, t). n = m \<and>
      (\<exists>w. subscript (PDict ?D) n = Inr w \<and> from_json_field t w = Inr x)) kvs (fields c)"
  proof (rule list.rel_mono_strong [OF ht(3)])
    fix p q
    assume p: "p \<in> set kvs" and q: "q \<in> set (fields c)"
      and r: "(\<lambda>(n, v) (m, t). n = m \<and> has_type v t) p q"
    obtain n v where pe: "p = (n, v)" by (cases p)
    obtain m t where qe: "q = (m, t)" by (cases q)
    have nm: "n = m" and h: "has_type v t" using r pe qe by auto
    have "flat t" using q qe by (auto dest: fields_flat)
    then have "from_json_field t (asdict_inner v) = Inr v"
      using PObj.IH [of "(n, v)" v t] p pe h by simp
    then show "(\<lambda>(n, x) (m, t). n = m \<and>
        (\<exists>w. subscript (PDict ?D) n = Inr w \<and> from_json_field t w = Inr x)) p q"
      using look [of n v] p pe qe nm by simp
  qed
  then have fv: "field_values (fields c) (PDict ?D) = Inr kvs"
    by (rule field_values_intro)
  have "from_json c (PDict ?D) = Inr (PObj c kvs)"
    unfolding from_json_eq fv by simp
  then show ?case by (simp add: ht(1))
qed auto


lemma has_type_cls:
  assumes "has_type r (TCls c)"
  obtains kvs where "r = PObj c kvs"
  using assms by (cases r) auto

lemma asdict_names:
  "map fst (map (\<lambda>(n, v). (n, asdict_inner v)) kvs) = map fst kvs"
  by (induction kvs) auto

lemma is_wire_asdict: "is_wire (asdict_inner v)"
  by (induction v) (auto simp: list_all_iff)

text \<open>
  Claim C1. For every declared class \<open>c\<close> and every instance \<open>r\<close> of \<open>c\<close> whose fields hold
  values of their declared types, \<open>to_json\<close> returns a wire value and \<open>from_json\<close> of that
  wire value returns an instance equal to \<open>r\<close>.
\<close>

theorem round_trip:
  assumes "has_type r (TCls c)"
  shows "\<exists>w. to_json r = Inr w \<and> from_json c w = Inr r"
proof -
  from assms obtain kvs where r: "r = PObj c kvs" by (rule has_type_cls)
  have "parse_field (TCls c) (asdict_inner r) = Inr r"
    using roundtrip_value [OF assms] by simp
  then have "from_json c (asdict_inner r) = Inr r"
    by (simp add: r)
  moreover have "to_json r = Inr (asdict_inner r)"
    by (simp add: to_json_def r)
  ultimately show ?thesis by blast
qed

theorem round_trip_witness:
  "has_type
     (PObj GetChatsResponse
        [(''chats'', PList [PObj Chat [(''chat_id'', PInt 1), (''chat_name'', PStr ''A'')],
                            PObj Chat [(''chat_id'', PInt 2), (''chat_name'', PStr ''B'')]])])
     (TCls GetChatsResponse)
   \<and> to_json
     (PObj GetChatsResponse
        [(''chats'', PList [PObj Chat [(''chat_id'', PInt 1), (''chat_name'', PStr ''A'')],
                            PObj Chat [(''chat_id'', PInt 2), (''chat_name'', PStr ''B'')]])])
     = Inr (PDict
        [(''chats'', PList [PDict [(''chat_id'', PInt 1), (''chat_name'', PStr ''A'')],
                            PDict [(''chat_id'', PInt 2), (''chat_name'', PStr ''B'')]])])
   \<and> from_json GetChatsResponse
     (PDict
        [(''chats'', PList [PDict [(''chat_id'', PInt 1), (''chat_name'', PStr ''A'')],
                            PDict [(''chat_id'', PInt 2), (''chat_name'', PStr ''B'')]])])
     = Inr (PObj GetChatsResponse
        [(''chats'', PList [PObj Chat [(''chat_id'', PInt 1), (''chat_name'', PStr ''A'')],
                            PObj Chat [(''chat_id'', PInt 2), (''chat_name'', PStr ''B'')]])])"
  using round_trip
    [of "PObj GetChatsResponse
        [(''chats'', PList [PObj Chat [(''chat_id'', PInt 1), (''chat_name'', PStr ''A'')],
                            PObj Chat [(''chat_id'', PInt 2), (''chat_name'', PStr ''B'')]])]"
      GetChatsResponse]
  by (simp add: to_json_def)

section \<open>Encoding never fails\<close>

text \<open>
  Claim C8. For every instance of a declared class whose fields hold values of their
  declared types, \<open>to_json\<close> raises nothing: it returns a wire value, a dict keyed by the
  declared field names in which no dataclass instance is left.
\<close>

theorem to_json_total:
  assumes "has_type r (TCls c)"
  shows "\<exists>kvs. to_json r = Inr (PDict kvs) \<and> map fst kvs = map fst (fields c)
           \<and> is_wire (PDict kvs)"
proof -
  from assms obtain vals where r: "r = PObj c vals" by (rule has_type_cls)
  let ?kvs = "map (\<lambda>(n, v). (n, asdict_inner v)) vals"
  have "to_json r = Inr (PDict ?kvs)" by (simp add: to_json_def r)
  moreover have "map fst ?kvs = map fst (fields c)"
    using has_type_fields(2) [OF assms [unfolded r]] by (simp only: asdict_names)
  moreover have "is_wire (PDict ?kvs)"
    using is_wire_asdict [of "PObj c vals"] by simp
  ultimately show ?thesis by blast
qed

theorem to_json_total_witness:
  "has_type (PObj InsertChatRequest
      [(''chat_name'', PStr ''team''), (''user_ids'', PList [PInt 1, PInt 2])])
     (TCls InsertChatRequest)
   \<and> to_json (PObj InsertChatRequest
      [(''chat_name'', PStr ''team''), (''user_ids'', PList [PInt 1, PInt 2])])
     = Inr (PDict [(''chat_name'', PStr ''team''), (''user_ids'', PList [PInt 1, PInt 2])])
   \<and> is_wire (PDict [(''chat_name'', PStr ''team''), (''user_ids'', PList [PInt 1, PInt 2])])"
  using to_json_total
    [of "PObj InsertChatRequest
      [(''chat_name'', PStr ''team''), (''user_ids'', PList [PInt 1, PInt 2])]"
      InsertChatRequest]
  by (simp add: to_json_def)

section \<open>What a decoded instance holds\<close>

lemma field_values_lookup:
  assumes "field_values fs json = Inr xs" and "distinct (map fst fs)" and "(name, ty) \<in> set fs"
  shows "\<exists>w x. subscript json name = Inr w \<and> from_json_field ty w = Inr x
           \<and> map_of xs name = Some x"
  using assms
proof (induction fs arbitrary: xs)
  case Nil
  then show ?case by simp
next
  case (Cons f fs)
  obtain n t where f: "f = (n, t)" by (cases f)
  from Cons.prems(1) obtain w x ys where
    w: "subscript json n = Inr w" and x: "from_json_field t w = Inr x"
    and ys: "field_values fs json = Inr ys" and xs: "xs = (n, x) # ys"
    by (auto simp: f split: sum.splits)
  show ?case
  proof (cases "(name, ty) = (n, t)")
    case True
    then show ?thesis using w x xs by simp
  next
    case False
    then have mem: "(name, ty) \<in> set fs" using Cons.prems(3) f by auto
    have d: "distinct (map fst fs)" using Cons.prems(2) by simp
    have "name \<noteq> n" using Cons.prems(2) mem f by force
    then show ?thesis using Cons.IH [OF ys d mem] xs by simp
  qed
qed

lemma from_json_field_value:
  assumes "from_json c json = Inr r" and "(name, ty) \<in> set (fields c)"
  shows "\<exists>vals w x. r = PObj c vals \<and> map fst vals = map fst (fields c)
           \<and> subscript json name = Inr w \<and> from_json_field ty w = Inr x
           \<and> map_of vals name = Some x"
proof -
  obtain xs where fv: "field_values (fields c) json = Inr xs" and r: "r = PObj c xs"
    using assms(1) unfolding from_json_eq by (auto split: sum.splits)
  from field_values_lookup [OF fv fields_distinct assms(2)] field_values_names [OF fv] r
  show ?thesis by blast
qed

lemma subscript_dict:
  "subscript json name = Inr w \<Longrightarrow> \<exists>kvs. json = PDict kvs \<and> map_of kvs name = Some w"
  by (cases json) (auto split: option.splits)

section \<open>The shape guard of \<open>_parse_field\<close>\<close>

text \<open>
  Claim C4. \<open>_parse_field\<close> recurses into \<open>from_json\<close> only when the wire value is a
  mapping: any other value is returned as it is, whatever the declared type, and a
  mapping under a class is decoded as an instance of that class. So the value of a field
  whose wire value is neither a mapping nor a sequence is the wire value itself, also
  when the field is declared as a nested record; the decoded instance holds it unchanged.
\<close>

theorem parse_field_shape_guard:
  "(\<not> is_dict value \<longrightarrow> parse_field ty value = Inr value)
   \<and> (is_dict value \<longrightarrow> parse_field (TCls c) value = from_json c value)
   \<and> (\<not> is_dict value \<and> \<not> is_list value \<longrightarrow> from_json_field ty value = Inr value)
   \<and> (\<not> is_dict value \<and> \<not> is_list value \<and> (name, ty) \<in> set (fields c)
        \<and> map_of kvs name = Some value \<and> from_json c (PDict kvs) = Inr r
      \<longrightarrow> (\<exists>vals. r = PObj c vals \<and> map_of vals name = Some value))"
proof (intro conjI impI)
  show "parse_field ty value = Inr value" if "\<not> is_dict value"
    using that by (cases "value") auto
  show "parse_field (TCls c) value = from_json c value" if "is_dict value"
    using that by (cases "value") auto
  show g: "from_json_field ty value = Inr value" if "\<not> is_dict value \<and> \<not> is_list value"
    using that by (cases "value") auto
  show "\<exists>vals. r = PObj c vals \<and> map_of vals name = Some value"
    if h: "\<not> is_dict value \<and> \<not> is_list value \<and> (name, ty) \<in> set (fields c)
        \<and> map_of kvs name = Some value \<and> from_json c (PDict kvs) = Inr r"
  proof -
    from h have a: "from_json c (PDict kvs) = Inr r" and b: "(name, ty) \<in> set (fields c)"
      and m: "map_of kvs name = Some value" and p: "\<not> is_dict value \<and> \<not> is_list value"
      by blast+
    from from_json_field_value [OF a b] m g [OF p] show ?thesis by auto
  qed
qed

theorem parse_field_shape_guard_witness:
  "\<not> is_dict (PInt 5) \<and> \<not> is_list (PInt 5)
   \<and> parse_field (TCls Chat) (PInt 5) = Inr (PInt 5)
   \<and> from_json_field (TCls Chat) (PInt 5) = Inr (PInt 5)
   \<and> is_dict (PDict [(''chat_id'', PInt 1), (''chat_name'', PStr ''A'')])
   \<and> parse_field (TCls Chat) (PDict [(''chat_id'', PInt 1), (''chat_name'', PStr ''A'')])
       = Inr (PObj Chat [(''chat_id'', PInt 1), (''chat_name'', PStr ''A'')])"
  using parse_field_shape_guard [of "PInt 5" "TCls Chat" Chat "''chat_id''" "[]" PNone]
    parse_field_shape_guard
      [of "PDict [(''chat_id'', PInt 1), (''chat_name'', PStr ''A'')]" TInt Chat "''chat_id''" "[]"
        PNone]
  by (simp add: construct_def)

section \<open>A non-sequence value in a sequence field\<close>





section \<open>All fields or no instance\<close>

text \<open>
  Claim C7. \<open>from_json\<close> either fails, returning no instance at all, or returns an instance
  of the target class that holds exactly the declared fields, in declaration order, each
  with the value decoded from the entry of the wire mapping under the field's name: no
  field is left out and no value is made up.
\<close>

theorem from_json_all_or_nothing:
  "(\<exists>e. from_json c json = Inl e)
   \<or> (\<exists>kvs vals. json = PDict kvs \<and> from_json c json = Inr (PObj c vals)
        \<and> list_all2 (\<lambda>(n, x) (m, t). n = m
              \<and> (\<exists>w. map_of kvs n = Some w \<and> from_json_field t w = Inr x)) vals (fields c))"
proof (cases "from_json c json")
  case (Inl e)
  then show ?thesis by blast
next
  case (Inr r)
  then obtain vals where fv: "field_values (fields c) json = Inr vals" and r: "r = PObj c vals"
    unfolding from_json_eq by (auto split: sum.splits)
  obtain n t fs where fs: "fields c = (n, t) # fs"
    using fields_nonempty [of c] by (cases "fields c") auto
  from fv fs obtain w where "subscript json n = Inr w"
    by (auto split: sum.splits)
  then obtain kvs where j: "json = PDict kvs"
    by (auto dest: subscript_dict)
  have "list_all2 (\<lambda>(n, x) (m, t). n = m
      \<and> (\<exists>w. map_of kvs n = Some w \<and> from_json_field t w = Inr x)) vals (fields c)"
  proof (rule list_all2_mono [OF field_values_all [OF fv]])
    fix p q
    assume "(\<lambda>(n, x) (m, t). n = m
      \<and> (\<exists>w. subscript json n = Inr w \<and> from_json_field t w = Inr x)) p q"
    then show "(\<lambda>(n, x) (m, t). n = m
      \<and> (\<exists>w. map_of kvs n = Some w \<and> from_json_field t w = Inr x)) p q"
      unfolding j by (cases p; cases q) (auto split: option.splits)
  qed
  with Inr r j show ?thesis by blast
qed

theorem from_json_all_or_nothing_witness:
  "from_json User (PDict [(''user_name'', PStr ''ann''), (''user_id'', PInt 7)])
     = Inr (PObj User [(''user_id'', PInt 7), (''user_name'', PStr ''ann'')])
   \<and> from_json User (PDict [(''user_id'', PInt 7)]) = Inl (KeyError ''user_name'')"
  using from_json_all_or_nothing
    [of User "PDict [(''user_name'', PStr ''ann''), (''user_id'', PInt 7)]"]
  by (simp add: construct_def)

section \<open>Sequences keep their order\<close>

lemma parse_list_nth:
  "parse_list elem ws = Inr xs \<Longrightarrow>
   length xs = length ws \<and> (\<forall>i<length ws. parse_field elem (ws ! i) = Inr (xs ! i))"
proof (induction ws arbitrary: xs)
  case Nil
  then show ?case by simp
next
  case (Cons w ws)
  from Cons.prems obtain y ys where y: "parse_field elem w = Inr y"
    and ys: "parse_list elem ws = Inr ys" and xs: "xs = y # ys"
    by (auto split: sum.splits)
  from Cons.IH [OF ys] y xs show ?case
    by (auto simp: nth_Cons split: nat.splits)
qed

lemma from_json_field_list:
  assumes "from_json_field ty (PList ws) = Inr x"
  shows "\<exists>elem xs. type_args0 ty = Inr elem \<and> x = PList xs \<and> length xs = length ws
           \<and> (\<forall>i<length ws. parse_field elem (ws ! i) = Inr (xs ! i))"
proof -
  from assms obtain elem xs where "type_args0 ty = Inr elem"
    and "parse_list elem ws = Inr xs" and "x = PList xs"
    by (auto split: sum.splits)
  then show ?thesis using parse_list_nth by blast
qed

lemma asdict_lookup:
  "map_of (map (\<lambda>(n, v). (n, asdict_inner v)) vals) name = map_option asdict_inner (map_of vals name)"
  by (induction vals) auto

text \<open>
  Claim C6. \<open>to_json\<close> turns a list into a list of the same length whose \<open>i\<close>-th element is
  the encoding of the \<open>i\<close>-th element, so a sequence field of an instance is encoded in
  order; \<open>from_json\<close> turns a wire list into a list of the same length whose \<open>i\<close>-th element
  is the decoding of the \<open>i\<close>-th wire element, so the field of the decoded instance keeps
  the order of the wire array.
\<close>

theorem sequence_order_preserved:
  "(\<exists>ws. asdict_inner (PList vs) = PList ws \<and> length ws = length vs
       \<and> (\<forall>i<length vs. ws ! i = asdict_inner (vs ! i)))
   \<and> (map_of vals name = Some (PList vs) \<longrightarrow>
        (\<exists>kvs. to_json (PObj c vals) = Inr (PDict kvs)
           \<and> map_of kvs name = Some (PList (map asdict_inner vs))))
   \<and> (from_json_field ty (PList ws) = Inr x \<longrightarrow>
        (\<exists>elem xs. type_args0 ty = Inr elem \<and> x = PList xs \<and> length xs = length ws
           \<and> (\<forall>i<length ws. parse_field elem (ws ! i) = Inr (xs ! i))))
   \<and> (from_json c (PDict kvs) = Inr r \<and> (name, TList elem) \<in> set (fields c)
        \<and> map_of kvs name = Some (PList ws) \<longrightarrow>
        (\<exists>vals' xs. r = PObj c vals' \<and> map_of vals' name = Some (PList xs)
           \<and> length xs = length ws
           \<and> (\<forall>i<length ws. parse_field elem (ws ! i) = Inr (xs ! i))))"
proof (intro conjI impI)
  show "\<exists>ws. asdict_inner (PList vs) = PList ws \<and> length ws = length vs
       \<and> (\<forall>i<length vs. ws ! i = asdict_inner (vs ! i))"
    by simp
  show "\<exists>kvs. to_json (PObj c vals) = Inr (PDict kvs)
           \<and> map_of kvs name = Some (PList (map asdict_inner vs))"
    if "map_of vals name = Some (PList vs)"
    using that by (simp add: to_json_def asdict_lookup)
  show "\<exists>elem xs. type_args0 ty = Inr elem \<and> x = PList xs \<and> length xs = length ws
           \<and> (\<forall>i<length ws. parse_field elem (ws ! i) = Inr (xs ! i))"
    if "from_json_field ty (PList ws) = Inr x"
    using that by (rule from_json_field_list)
  show "\<exists>vals' xs. r = PObj c vals' \<and> map_of vals' name = Some (PList xs)
           \<and> length xs = length ws
           \<and> (\<forall>i<length ws. parse_field elem (ws ! i) = Inr (xs ! i))"
    if h: "from_json c (PDict kvs) = Inr r \<and> (name, TList elem) \<in> set (fields c)
        \<and> map_of kvs name = Some (PList ws)"
  proof -
    from h have a: "from_json c (PDict kvs) = Inr r"
      and b: "(name, TList elem) \<in> set (fields c)"
      and m: "map_of kvs name = Some (PList ws)" by blast+
    from from_json_field_value [OF a b] m obtain vals' x where
      r: "r = PObj c vals'" and x: "from_json_field (TList elem) (PList ws) = Inr x"
      and v: "map_of vals' name = Some x" by auto
    from from_json_field_list [OF x] r v show ?thesis by auto
  qed
qed

theorem sequence_order_preserved_witness:
  "map_of [(''chat_name'', PStr ''team''), (''user_ids'', PList [PInt 3, PInt 1, PInt 2])]
      ''user_ids'' = Some (PList [PInt 3, PInt 1, PInt 2])
   \<and> to_json (PObj InsertChatRequest
        [(''chat_name'', PStr ''team''), (''user_ids'', PList [PInt 3, PInt 1, PInt 2])])
      = Inr (PDict [(''chat_name'', PStr ''team''), (''user_ids'', PList [PInt 3, PInt 1, PInt 2])])
   \<and> from_json_field (TList TInt) (PList [PInt 3, PInt 1, PInt 2])
      = Inr (PList [PInt 3, PInt 1, PInt 2])
   \<and> from_json InsertChatRequest
        (PDict [(''chat_name'', PStr ''team''), (''user_ids'', PList [PInt 3, PInt 1, PInt 2])])
      = Inr (PObj InsertChatRequest
        [(''chat_name'', PStr ''team''), (''user_ids'', PList [PInt 3, PInt 1, PInt 2])])"
  using sequence_order_preserved
    [of "[PInt 3, PInt 1, PInt 2]"
        "[(''chat_name'', PStr ''team''), (''user_ids'', PList [PInt 3, PInt 1, PInt 2])]"
        "''user_ids''" InsertChatRequest "TList TInt" "[PInt 3, PInt 1, PInt 2]"
        "PList [PInt 3, PInt 1, PInt 2]"
        "[(''chat_name'', PStr ''team''), (''user_ids'', PList [PInt 3, PInt 1, PInt 2])]"
        "PObj InsertChatRequest
          [(''chat_name'', PStr ''team''), (''user_ids'', PList [PInt 3, PInt 1, PInt 2])]"
        TInt]
  by (simp add: to_json_def construct_def)

section \<open>Extra keys\<close>

lemma field_values_cong:
  "\<forall>n\<in>fst ` set fs. map_of kvs' n = map_of kvs n \<Longrightarrow>
   field_values fs (PDict kvs') = field_values fs (PDict kvs)"
  by (induction fs) (auto split: sum.splits option.splits)

lemma field_values_present:
  "\<forall>(n, t)\<in>set fs. \<exists>w x. map_of kvs n = Some w \<and> from_json_field t w = Inr x \<Longrightarrow>
   \<exists>xs. field_values fs (PDict kvs) = Inr xs"
  by (induction fs) auto

text \<open>
  Claim C5, as the code has it. \<open>from_json\<close> reads the wire mapping only under the declared
  field names: two mappings that agree on these names decode alike, so an extra key never
  makes decoding fail and never changes its result. Decoding succeeds when every declared
  field has an entry that decodes; an entry that does not decode makes it fail, with or
  without extra keys.
\<close>

theorem extra_keys_ignored:
  "((\<forall>n\<in>fst ` set (fields c). map_of kvs' n = map_of kvs n)
      \<longrightarrow> from_json c (PDict kvs') = from_json c (PDict kvs))
   \<and> ((\<forall>(n, t)\<in>set (fields c). \<exists>w x. map_of kvs n = Some w \<and> from_json_field t w = Inr x)
      \<longrightarrow> (\<exists>r. from_json c (PDict kvs) = Inr r))"
proof (intro conjI impI)
  assume "\<forall>n\<in>fst ` set (fields c). map_of kvs' n = map_of kvs n"
  then show "from_json c (PDict kvs') = from_json c (PDict kvs)"
    unfolding from_json_eq by (simp only: field_values_cong)
next
  assume "\<forall>(n, t)\<in>set (fields c). \<exists>w x. map_of kvs n = Some w \<and> from_json_field t w = Inr x"
  then obtain xs where "field_values (fields c) (PDict kvs) = Inr xs"
    using field_values_present by blast
  then show "\<exists>r. from_json c (PDict kvs) = Inr r"
    unfolding from_json_eq by simp
qed

theorem extra_keys_ignored_witness:
  "map_of [(''user_id'', PInt 5), (''unexpected'', PBool True)] ''user_id''
     = map_of [(''user_id'', PInt 5)] ''user_id''
   \<and> from_json InsertUserResponse (PDict [(''user_id'', PInt 5), (''unexpected'', PBool True)])
     = Inr (PObj InsertUserResponse [(''user_id'', PInt 5)])
   \<and> from_json InsertUserResponse (PDict [(''user_id'', PInt 5)])
     = Inr (PObj InsertUserResponse [(''user_id'', PInt 5)])"
  using extra_keys_ignored
    [of InsertUserResponse "[(''user_id'', PInt 5), (''unexpected'', PBool True)]"
      "[(''user_id'', PInt 5)]"]
  by (simp add: construct_def)

text \<open>
  A mapping with every declared name and an extra key whose declared entry does not
  decode: \<open>{"user_id": {}, "unexpected": true}\<close> as \<open>InsertUserResponse\<close> fails.
\<close>

theorem extra_keys_malformed_entry_counterexample:
  "from_json InsertUserResponse (PDict [(''user_id'', PDict []), (''unexpected'', PBool True)])
     = Inl AttributeError"
  by simp

section \<open>Missing fields\<close>

lemma field_values_error:
  "field_values fs (PDict kvs) = Inl e \<Longrightarrow>
   (\<exists>m. e = KeyError m \<and> m \<in> fst ` set fs \<and> map_of kvs m = None)
   \<or> (\<exists>m t w. (m, t) \<in> set fs \<and> map_of kvs m = Some w \<and> from_json_field t w = Inl e)"
proof (induction fs)
  case Nil
  then show ?case by simp
next
  case (Cons f fs)
  obtain n t where f: "f = (n, t)" by (cases f)
  show ?case
  proof (cases "map_of kvs n")
    case None
    then have "e = KeyError n" using Cons.prems f by simp
    with None f show ?thesis by auto
  next
    case (Some w)
    show ?thesis
    proof (cases "from_json_field t w")
      case (Inl e')
      then have "e = e'" using Cons.prems f Some by simp
      with Inl Some f show ?thesis by auto
    next
      case (Inr x)
      then have "field_values fs (PDict kvs) = Inl e"
        using Cons.prems f Some by (simp split: sum.splits)
      from Cons.IH [OF this] show ?thesis by auto
    qed
  qed
qed

lemma field_values_first_missing:
  assumes "\<forall>(m, t)\<in>set pre. \<exists>w x. map_of kvs m = Some w \<and> from_json_field t w = Inr x"
    and "map_of kvs name = None"
  shows "field_values (pre @ (name, ty) # post) (PDict kvs) = Inl (KeyError name)"
  using assms by (induction pre) auto

lemma primitive_from_json_field:
  "\<not> is_dict w \<Longrightarrow> \<not> is_list w \<Longrightarrow> from_json_field ty w = Inr w"
  by (cases w) auto

text \<open>
  Claim C3, as the code has it. When the wire mapping has no entry for some declared
  field, \<open>from_json\<close> fails. The error is a \<open>KeyError\<close> naming a declared field that is
  absent, unless the entry of a present field fails to decode first: then that field's
  error is the one raised. When every entry present under a declared name is a primitive
  (neither mapping nor sequence), the error is the \<open>KeyError\<close>.
\<close>

theorem missing_field_fails:
  assumes "(name, ty) \<in> set (fields c)" and "map_of kvs name = None"
  shows "\<exists>e. from_json c (PDict kvs) = Inl e
    \<and> ((\<exists>m. e = KeyError m \<and> m \<in> fst ` set (fields c) \<and> map_of kvs m = None)
       \<or> (\<exists>m t w. (m, t) \<in> set (fields c) \<and> map_of kvs m = Some w
             \<and> from_json_field t w = Inl e))
    \<and> ((\<forall>(m, t)\<in>set (fields c). \<forall>w. map_of kvs m = Some w \<longrightarrow> \<not> is_dict w \<and> \<not> is_list w)
       \<longrightarrow> (\<exists>m. e = KeyError m \<and> m \<in> fst ` set (fields c) \<and> map_of kvs m = None))"
proof -
  have "\<exists>e. field_values (fields c) (PDict kvs) = Inl e"
  proof (cases "field_values (fields c) (PDict kvs)")
    case (Inl e)
    then show ?thesis by blast
  next
    case (Inr xs)
    from field_values_field [OF Inr assms(1)] assms(2) show ?thesis by simp
  qed
  then obtain e where fv: "field_values (fields c) (PDict kvs) = Inl e" by blast
  then have fj: "from_json c (PDict kvs) = Inl e"
    unfolding from_json_eq by simp
  note alt = field_values_error [OF fv]
  have "\<exists>m. e = KeyError m \<and> m \<in> fst ` set (fields c) \<and> map_of kvs m = None"
    if prim: "\<forall>(m, t)\<in>set (fields c). \<forall>w. map_of kvs m = Some w \<longrightarrow> \<not> is_dict w \<and> \<not> is_list w"
  proof -
    have "\<not> (\<exists>m t w. (m, t) \<in> set (fields c) \<and> map_of kvs m = Some w
             \<and> from_json_field t w = Inl e)"
    proof
      assume "\<exists>m t w. (m, t) \<in> set (fields c) \<and> map_of kvs m = Some w
             \<and> from_json_field t w = Inl e"
      then obtain m t w where mt: "(m, t) \<in> set (fields c)" and w: "map_of kvs m = Some w"
        and f: "from_json_field t w = Inl e" by blast
      from prim mt w have "\<not> is_dict w" and "\<not> is_list w" by auto
      then have "from_json_field t w = Inr w" by (rule primitive_from_json_field)
      with f show False by simp
    qed
    with alt show ?thesis by blast
  qed
  with fj alt show ?thesis by blast
qed

theorem missing_field_fails_witness:
  "(''user_id'', TInt) \<in> set (fields InsertUserResponse)
   \<and> map_of [] ''user_id'' = (None :: pyval option)
   \<and> from_json InsertUserResponse (PDict []) = Inl (KeyError ''user_id'')"
  using missing_field_fails [of "''user_id''" TInt InsertUserResponse "[]"]
  by simp

text \<open>
  A mapping that lacks declared fields and fails with another error: in
  \<open>{"chat_id": {}}\<close> as \<open>BroadcastRequest\<close> the entry of the first field is a mapping, and
  \<open>AttributeError\<close> is raised before any missing name is looked up.
\<close>

theorem missing_field_other_error_counterexample:
  "from_json BroadcastRequest (PDict [(''chat_id'', PDict [])]) = Inl AttributeError"
  by simp

text \<open>
  Claim C9, as the code has it. The fields are resolved in declaration order: when the
  entries of all fields declared before the first absent one decode, \<open>from_json\<close> fails with
  the \<open>KeyError\<close> naming that first absent field, however many later fields are absent
  too.
\<close>

theorem first_missing_field_reported:
  assumes "fields c = pre @ (name, ty) # post"
    and "\<forall>(m, t)\<in>set pre. \<exists>w x. map_of kvs m = Some w \<and> from_json_field t w = Inr x"
    and "map_of kvs name = None"
  shows "from_json c (PDict kvs) = Inl (KeyError name)"
  unfolding from_json_eq assms(1)
  by (simp only: field_values_first_missing [OF assms(2) assms(3)] sum.case)

theorem first_missing_field_reported_witness:
  "fields Message = [(''message_id'', TInt)] @ (''chat_id'', TInt)
       # [(''user_id'', TInt), (''message_text'', TStr), (''message_ts'', TInt)]
   \<and> map_of [(''message_id'', PInt 1), (''message_text'', PStr ''hi'')] ''message_id''
       = Some (PInt 1)
   \<and> from_json_field TInt (PInt 1) = Inr (PInt 1)
   \<and> map_of [(''message_id'', PInt 1), (''message_text'', PStr ''hi'')] ''chat_id'' = None
   \<and> from_json Message (PDict [(''message_id'', PInt 1), (''message_text'', PStr ''hi'')])
       = Inl (KeyError ''chat_id'')"
  using first_missing_field_reported
    [of Message "[(''message_id'', TInt)]" "''chat_id''" TInt
      "[(''user_id'', TInt), (''message_text'', TStr), (''message_ts'', TInt)]"
      "[(''message_id'', PInt 1), (''message_text'', PStr ''hi'')]"]
  by simp

text \<open>
  Several fields are absent and none is named: in \<open>{"message_id": []}\<close> as \<open>Message\<close> the
  entry of the first field is a sequence, \<open>int\<close> has no \<open>__args__\<close>, and \<open>AttributeError\<close> is
  raised.
\<close>

theorem first_missing_other_error_counterexample:
  "from_json Message (PDict [(''message_id'', PList [])]) = Inl AttributeError"
  by simp

end
